theory Spec2Isabelle
  imports Main
begin

section \<open>React values\<close>

text \<open>
  The program is a set of React components written in TypeScript. Its data are React
  nodes: the values that may stand as the children of an element. A node is
  \<^item> \<open>null\<close> or \<open>undefined\<close> (\<open>RNull\<close>; the program and the Children API never tell
    the two apart),
  \<^item> a boolean, a string or a number (numbers are modelled as integers),
  \<^item> an array of nodes, or
  \<^item> an element: its \<open>type\<close> (a tag name for a host DOM element, the \<open>Fragment\<close>
    symbol, or a component, named by its function), its \<open>key\<close>, and its props. Of the
    props, \<open>props.id\<close> (declared \<open>id?: string\<close>) and \<open>props.children\<close> are fields of
    their own; the other props are a list of name and value in insertion order.

  An element written in JSX with one child holds that child as \<open>props.children\<close>; with
  several children it holds an array of them; with none, \<open>props.children\<close> is undefined.
\<close>

datatype element_type = Host string | Fragment | Component string

datatype pval = PUndefined | PBool bool | PStr string | PNum int | PFun string

type_synonym props = "(string \<times> pval) list"

datatype rnode =
    RNull
  | RBool bool
  | RStr string
  | RNum int
  | RArr "rnode list"
  | RElem (etype: element_type) (ekey: "string option") (eid: "string option") (eprops: props)
      (echildren: rnode)

fun isValidElement :: "rnode \<Rightarrow> bool" where
  "isValidElement (RElem t k i p c) = True"
| "isValidElement _ = False"

fun isArray :: "rnode \<Rightarrow> bool" where
  "isArray (RArr xs) = True"
| "isArray _ = False"

text \<open>
  JavaScript truthiness, for the tests \<open>if (x)\<close>, \<open>x ? a : b\<close>, \<open>x && y\<close> and \<open>x || y\<close>:
  \<open>null\<close>, \<open>undefined\<close>, \<open>false\<close>, \<open>0\<close> and the empty string are falsy, every array and
  every element is truthy. \<open>truthy_id\<close> is the same test on a value of type
  \<open>string | undefined\<close>.
\<close>

fun truthy :: "rnode \<Rightarrow> bool" where
  "truthy RNull = False"
| "truthy (RBool b) = b"
| "truthy (RStr s) = (s \<noteq> [])"
| "truthy (RNum n) = (n \<noteq> 0)"
| "truthy (RArr xs) = True"
| "truthy (RElem t k i p c) = True"

fun truthy_id :: "string option \<Rightarrow> bool" where
  "truthy_id None = False"
| "truthy_id (Some s) = (s \<noteq> [])"

section \<open>The React functions the program calls\<close>

text \<open>
  \<open>Children.forEach\<close> and \<open>Children.map\<close> walk \<open>props.children\<close> in order, entering
  arrays at any depth and stopping at everything else; they do not enter elements. The
  callback sees \<open>null\<close> in place of \<open>undefined\<close> and of a boolean. \<open>leaves\<close> is the
  sequence of values handed to the callback.
\<close>

fun leaves :: "rnode \<Rightarrow> rnode list" where
  "leaves (RArr xs) = concat (map leaves xs)"
| "leaves RNull = [RNull]"
| "leaves (RBool b) = [RNull]"
| "leaves x = [x]"

text \<open>
  \<open>Children.forEach(children, fn)\<close> returns at once when \<open>children\<close> is \<open>null\<close> or
  \<open>undefined\<close>. The callbacks of the program update a variable of the enclosing function;
  that variable is the state \<open>s\<close> threaded through the calls.
\<close>

definition Children_forEach :: "rnode \<Rightarrow> (rnode \<Rightarrow> 'a \<Rightarrow> 'a) \<Rightarrow> 'a \<Rightarrow> 'a" where
  "Children_forEach children fn s = (if children = RNull then s else fold fn (leaves children) s)"

text \<open>
  \<open>Children.map(children, fn)\<close> returns \<open>children\<close> itself when it is \<open>null\<close> or
  \<open>undefined\<close>, and otherwise a flat array of the results of \<open>fn\<close>: a result that is
  \<open>null\<close> or \<open>undefined\<close> is left out, a result that is an array is flattened in the same
  way (\<open>pushed\<close>). React also gives the elements of the returned array new keys, made
  from their positions and their old keys. The program reads the key of top-level elements
  only, which never pass through \<open>Children.map\<close>, and no statement below speaks of the
  key of a nested element; the model does not compute the new keys and leaves the key
  field of a returned element as it was.
\<close>

fun pushed :: "rnode \<Rightarrow> rnode list" where
  "pushed RNull = []"
| "pushed (RArr ys) = filter (\<lambda>y. y \<noteq> RNull) (leaves (RArr ys))"
| "pushed m = [m]"

definition Children_map :: "(rnode \<Rightarrow> rnode) \<Rightarrow> rnode \<Rightarrow> rnode" where
  "Children_map fn children =
     (if children = RNull then RNull
      else RArr (concat (map (\<lambda>child. pushed (fn child)) (leaves children))))"

text \<open>
  \<open>cloneElement(element, config, children)\<close>, always called by the program with three
  arguments and on an element: the type and the key are kept, the props are copied and the
  entries of \<open>config\<close> assigned over them one by one, and \<open>props.children\<close> becomes the
  third argument, also when that argument is \<open>undefined\<close>. No \<open>config\<close> of the program
  names \<open>key\<close>, \<open>ref\<close>, \<open>id\<close> or \<open>children\<close>. Default props of components are not
  modelled. Every call of the program stands behind \<open>isValidElement\<close>; what
  \<open>cloneElement\<close> does to a value that is no element is left unspecified.
\<close>

fun set_prop :: "string \<Rightarrow> pval \<Rightarrow> props \<Rightarrow> props" where
  "set_prop k v [] = [(k, v)]"
| "set_prop k v ((k', v') # ps) = (if k' = k then (k, v) # ps else (k', v') # set_prop k v ps)"

definition assign :: "props \<Rightarrow> props \<Rightarrow> props" where
  "assign target source = fold (\<lambda>(k, v). set_prop k v) source target"

fun cloneElement :: "rnode \<Rightarrow> props \<Rightarrow> rnode \<Rightarrow> rnode" where
  "cloneElement (RElem t k i p c) config children = RElem t k i (assign p config) children"

text \<open>The recursive functions below call themselves on leaves of the children only.\<close>

lemma leaves_size: "x \<in> set (leaves c) \<Longrightarrow> size x \<le> size c"
proof (induction c arbitrary: x)
  case (RArr xs)
  then obtain y where y: "y \<in> set xs" "x \<in> set (leaves y)" by auto
  then have "size x \<le> size y" using RArr.IH by blast
  also have "size y \<le> size_list size xs" using y(1) by (simp add: size_list_estimation')
  finally show ?case by simp
qed auto

lemma Children_forEach_cong [fundef_cong]:
  "c = c' \<Longrightarrow> s = s' \<Longrightarrow> (\<And>x acc. x \<in> set (leaves c') \<Longrightarrow> f x acc = g x acc)
   \<Longrightarrow> Children_forEach c f s = Children_forEach c' g s'"
  unfolding Children_forEach_def by (auto intro: fold_cong)

lemma Children_map_cong [fundef_cong]:
  "c = c' \<Longrightarrow> (\<And>x. x \<in> set (leaves c') \<Longrightarrow> f x = g x)
   \<Longrightarrow> Children_map f c = Children_map g c'"
  unfolding Children_map_def by (auto intro!: arg_cong [where f = concat])

section \<open>Tree helpers of LessonView.tsx\<close>

function (sequential) hasSectionId :: "rnode \<Rightarrow> string \<Rightarrow> bool" where
  "hasSectionId (RElem t k i p c) targetId =
     (if i = Some targetId then True
      else Children_forEach c
             (\<lambda>child found. if \<not> found \<and> hasSectionId child targetId then True else found)
             False)"
| "hasSectionId element targetId = False"
  by pat_completeness auto
termination
  by (relation "measure (\<lambda>(e, t). size e)") (auto dest: leaves_size)

function (sequential) replaceSectionContent :: "rnode \<Rightarrow> string \<Rightarrow> rnode \<Rightarrow> rnode" where
  "replaceSectionContent (RElem t k i p c) targetId newContent =
     (if i = Some targetId then cloneElement (RElem t k i p c) [] newContent
      else if truthy c then
        cloneElement (RElem t k i p c) []
          (Children_map (\<lambda>child. replaceSectionContent child targetId newContent) c)
      else RElem t k i p c)"
| "replaceSectionContent element targetId newContent = element"
  by pat_completeness auto
termination
  by (relation "measure (\<lambda>(e, t, n). size e)") (auto dest: leaves_size)

function (sequential) getSectionIdFromElement :: "rnode \<Rightarrow> string option" where
  "getSectionIdFromElement (RElem t k i p c) =
     (if truthy_id i \<and> t = Component ''Section'' then i
      else if truthy_id i then i
      else if truthy c then
        Children_forEach c
          (\<lambda>child foundId.
             if \<not> truthy_id foundId \<and> isValidElement child then getSectionIdFromElement child
             else foundId)
          None
      else None)"
| "getSectionIdFromElement element = None"
  by pat_completeness auto
termination
  by (relation "measure size") (auto dest: leaves_size)

section \<open>SectionRenderer.tsx\<close>

function (sequential) deepCloneWithProps :: "rnode \<Rightarrow> props \<Rightarrow> rnode" where
  "deepCloneWithProps (RElem t k i p c) props =
     (let isHostComponent = (case t of Host tag \<Rightarrow> True | _ \<Rightarrow> False);
          isFragment = (t = Fragment);
          shouldInjectProps = (\<not> isHostComponent \<and> \<not> isFragment)
      in cloneElement (RElem t k i p c)
           (if shouldInjectProps then props else [])
           (if truthy c then Children_map (\<lambda>child. deepCloneWithProps child props) c
            else RNull))"
| "deepCloneWithProps element props = element"
  by pat_completeness auto
termination
  by (relation "measure (\<lambda>(e, ps). size e)") (auto dest: leaves_size)

text \<open>
  The object \<open>{ isPreview, onEditSection, onAddSection }\<close> that \<open>DraggableSection\<close> and
  \<open>SectionRenderer\<close> hand to \<open>deepCloneWithProps\<close>: the three names are always own
  properties of it, the value \<open>undefined\<close> included.
\<close>

definition capability_props :: "pval \<Rightarrow> pval \<Rightarrow> pval \<Rightarrow> props" where
  "capability_props isPreview onEditSection onAddSection =
     [(''isPreview'', isPreview), (''onEditSection'', onEditSection),
      (''onAddSection'', onAddSection)]"

text \<open>
  \<open>DraggableSection\<close>: the constant \<open>sectionId\<close>, published as \<open>id\<close> on the section
  context, and \<open>handleDelete\<close>, published as \<open>onDelete\<close>. \<open>onDeleteSection\<close> is an
  optional prop; calling it is applying it to the state of its owner.
\<close>

definition sectionId :: "rnode \<Rightarrow> string option" where
  "sectionId sec =
     (if truthy_id (eid sec) then eid sec
      else if truthy (echildren sec) \<and> isValidElement (echildren sec) then eid (echildren sec)
      else None)"

definition handleDelete :: "rnode \<Rightarrow> (string \<Rightarrow> 's \<Rightarrow> 's) option \<Rightarrow> 's \<Rightarrow> 's" where
  "handleDelete sec onDeleteSection st =
     (case onDeleteSection of
        Some f \<Rightarrow> if truthy_id (sectionId sec) then f (the (sectionId sec)) st else st
      | None \<Rightarrow> st)"

text \<open>
  A number in a template literal is printed in decimal (\<open>Date.now()\<close> and the index of
  a list are non-negative integers).
\<close>

definition digit_char :: "nat \<Rightarrow> char" where
  "digit_char d = ''0123456789'' ! d"

function show_nat :: "nat \<Rightarrow> string" where
  "show_nat n =
     (if n < 10 then [digit_char n] else show_nat (n div 10) @ [digit_char (n mod 10)])"
  by pat_completeness auto
termination
  by (relation "measure id") auto

declare show_nat.simps [simp del]

text \<open>The number that a string of decimal digits denotes.\<close>

definition decimal_value :: "string \<Rightarrow> nat" where
  "decimal_value s = foldl (\<lambda>a c. 10 * a + (of_char c - 48)) 0 s"

text \<open>
  The React key \<open>SectionRenderer\<close> gives to the \<open>DraggableSection\<close> of the section at
  position \<open>index\<close>: \<open>section.key\<close>, or else \<open>section.props.id\<close>, or else
  \<open>section-\<close> followed by the index.
\<close>

definition draggableKey :: "rnode \<Rightarrow> nat \<Rightarrow> string" where
  "draggableKey sec index =
     (if truthy_id (ekey sec) then the (ekey sec)
      else if truthy_id (eid sec) then the (eid sec)
      else ''section-'' @ show_nat index)"

section \<open>The section store of LessonView.tsx\<close>

text \<open>
  \<open>LessonView\<close> owns the list \<open>initialSections\<close>. Beside it the state records what the
  handlers send out: the messages posted to \<open>window.parent\<close> and the lines written with
  \<open>console.warn\<close> (each the list of its arguments).
\<close>

datatype message = CommitSectionReorder "string list" | CommitSectionDelete string

record store =
  initialSections :: "rnode list"
  posted :: "message list"
  warnings :: "string list list"

text \<open>\<open>Array.prototype.findIndex\<close>: the index of the first match, or \<open>-1\<close>.\<close>

fun findIndex :: "('a \<Rightarrow> bool) \<Rightarrow> 'a list \<Rightarrow> int" where
  "findIndex P [] = - 1"
| "findIndex P (x # xs) =
     (if P x then 0 else (let r = findIndex P xs in if r = - 1 then - 1 else r + 1))"

text \<open>
  The element \<open>handleAddSection\<close> builds; \<open>now\<close> is the value of \<open>Date.now()\<close>. The
  placeholder text is \<open>Type '/' for commands\<close>.
\<close>

definition newSection :: "nat \<Rightarrow> rnode" where
  "newSection now =
     (let newId = ''section-'' @ show_nat now in
      RElem (Component ''FullWidthLayout'') (Some (''layout-'' @ newId)) None
        [(''maxWidth'', PStr ''xl'')]
        (RElem (Component ''Section'') None (Some newId) []
          (RElem (Component ''SectionInput'') None (Some newId)
             [(''onCommit'', PFun ''handleCommitSection''),
              (''placeholder'',
               PStr (''Type '' @ [CHR 0x27] @ ''/'' @ [CHR 0x27] @ '' for commands''))]
             RNull)))"

definition handleAddSection :: "string \<Rightarrow> nat \<Rightarrow> 'a store_scheme \<Rightarrow> 'a store_scheme" where
  "handleAddSection targetId now st =
     (let index = findIndex (\<lambda>s. hasSectionId s targetId) (initialSections st) in
      if index \<noteq> - 1 then
        let newSections =
              take (nat (index + 1)) (initialSections st) @ [newSection now]
                @ drop (nat (index + 1)) (initialSections st)
        in st\<lparr>initialSections := newSections\<rparr>
      else st\<lparr>warnings := warnings st @ [[''Could not find section with id:'', targetId]]\<rparr>)"

definition handleDeleteSection :: "string \<Rightarrow> 'a store_scheme \<Rightarrow> 'a store_scheme" where
  "handleDeleteSection ident st =
     st\<lparr>initialSections := filter (\<lambda>s. \<not> hasSectionId s ident) (initialSections st),
        posted := posted st @ [CommitSectionDelete ident]\<rparr>"

text \<open>
  \<open>String.prototype.startsWith\<close>, and \<open>String.prototype.replace\<close> with a string
  pattern, which replaces the first occurrence of the pattern only.
\<close>

definition startsWith :: "string \<Rightarrow> string \<Rightarrow> bool" where
  "startsWith s p = (take (length p) s = p)"

fun replace_first :: "string \<Rightarrow> string \<Rightarrow> string \<Rightarrow> string" where
  "replace_first pat rep [] = (if pat = [] then rep else [])"
| "replace_first pat rep (c # cs) =
     (if startsWith (c # cs) pat then rep @ drop (length pat) (c # cs)
      else c # replace_first pat rep cs)"

text \<open>The function \<open>handleReorder\<close> maps over the new list to compute \<open>sectionIds\<close>.\<close>

definition reorderSectionId :: "rnode \<Rightarrow> string" where
  "reorderSectionId s =
     (if truthy_id (ekey s) \<and> startsWith (the (ekey s)) ''layout-''
      then replace_first ''layout-'' '''' (the (ekey s))
      else (case getSectionIdFromElement s of
              None \<Rightarrow> ''unknown''
            | Some i \<Rightarrow> if i = [] then ''unknown'' else i))"

definition handleReorder :: "rnode list \<Rightarrow> 'a store_scheme \<Rightarrow> 'a store_scheme" where
  "handleReorder newSections st =
     st\<lparr>initialSections := newSections,
        posted := posted st @ [CommitSectionReorder (map reorderSectionId newSections)]\<rparr>"

section \<open>The loading effect of LessonView.tsx\<close>

text \<open>
  The effect runs once, when the component mounts. It sets \<open>cancelled\<close> to false and
  \<open>cleanup\<close> to null and starts an asynchronous function that awaits \<open>loadSections\<close>;
  what stands after the \<open>await\<close> runs as one uninterrupted step when the promise
  resolves. JavaScript runs one such step at a time, so the effect is a state machine over
  three events: the load resolves (with an array, or with something that is not one), the
  component is torn down (React calls the function the effect returned), and the watcher
  delivers a new list. \<open>pending\<close> says that the promise has not resolved yet, \<open>cleanup\<close>
  that the variable \<open>cleanup\<close> holds a function, \<open>subscribed\<close> that the watcher created
  by \<open>createSectionsWatcher\<close> is active; \<open>dev\<close> is \<open>import.meta.env.DEV\<close>.
\<close>

record effect_state = store +
  cancelled :: bool
  pending :: bool
  cleanup :: bool
  subscribed :: bool
  loadingSections :: bool

datatype event = LoadResolved "rnode list option" | Teardown | WatcherPush "rnode list"

definition mount :: effect_state where
  "mount = \<lparr>initialSections = [], posted = [], warnings = [],
            cancelled = False, pending = True, cleanup = False, subscribed = False,
            loadingSections = True\<rparr>"

fun step :: "bool \<Rightarrow> effect_state \<Rightarrow> event \<Rightarrow> effect_state" where
  "step dev s (LoadResolved secs) =
     (if \<not> pending s then s
      else if cancelled s then s\<lparr>pending := False\<rparr>
      else s\<lparr>pending := False,
             initialSections := (case secs of Some xs \<Rightarrow> xs | None \<Rightarrow> []),
             loadingSections := False,
             cleanup := dev,
             subscribed := dev\<rparr>)"
| "step dev s Teardown =
     s\<lparr>cancelled := True, subscribed := (if cleanup s then False else subscribed s)\<rparr>"
| "step dev s (WatcherPush updatedSections) =
     (if subscribed s \<and> \<not> cancelled s then s\<lparr>initialSections := updatedSections\<rparr> else s)"

definition run :: "bool \<Rightarrow> effect_state \<Rightarrow> event list \<Rightarrow> effect_state" where
  "run dev s evs = foldl (step dev) s evs"

section \<open>The section input (SectionInput.tsx)\<close>

text \<open>
  A JavaScript string is a sequence of UTF-16 code units; the text typed into the
  textarea is modelled as the list of its code units. \<open>String.prototype.trim\<close> removes
  the leading and trailing code units that ECMAScript classifies as WhiteSpace or
  LineTerminator.
\<close>

type_synonym utf16 = "nat list"

definition isWhiteSpace :: "nat \<Rightarrow> bool" where
  "isWhiteSpace c =
     (c \<in> {0x9, 0xA, 0xB, 0xC, 0xD, 0x20, 0xA0, 0x1680, 0x2028, 0x2029, 0x202F, 0x205F,
            0x3000, 0xFEFF}
      \<or> (0x2000 \<le> c \<and> c \<le> 0x200A))"

definition trim :: "utf16 \<Rightarrow> utf16" where
  "trim s = rev (dropWhile isWhiteSpace (rev (dropWhile isWhiteSpace s)))"

text \<open>A string is truthy when it is not empty.\<close>

definition truthy_string :: "'a list \<Rightarrow> bool" where
  "truthy_string s = (s \<noteq> [])"

record keyboard_event =
  key :: string
  shiftKey :: bool

text \<open>
  The effects of \<open>handleKeyDown\<close>: whether \<open>e.preventDefault()\<close> was called, and the
  calls made to \<open>onCommit\<close>, each with its two arguments.
\<close>

record key_effects =
  preventDefault :: bool
  onCommit :: "(string \<times> utf16) list"

definition handleKeyDown :: "string \<Rightarrow> utf16 \<Rightarrow> keyboard_event \<Rightarrow> key_effects" where
  "handleKeyDown ident val e =
     (if key e = ''Enter'' \<and> \<not> shiftKey e then
        \<lparr>preventDefault = True,
         onCommit = (if truthy_string (trim val) then [(ident, val)] else [])\<rparr>
      else \<lparr>preventDefault = False, onCommit = []\<rparr>)"

section \<open>The node tree of the specification\<close>

text \<open>
  The specification speaks of a tree of nodes, each with a kind, an optional id, an open
  bag of props and an ordered sequence of child nodes. \<open>nodes\<close> reads that tree off a
  React value: the children of an element are the elements, strings and numbers among the
  leaves of \<open>props.children\<close>, in order; \<open>null\<close>, \<open>undefined\<close> and booleans render
  nothing and are no nodes; whether the children are held as one value or as an array
  (nested or not) makes no difference. Structural equality of trees is equality of
  \<open>nodes\<close>. The key is not a field of a node: only the key of a top-level element is
  ever read, and it is handled on the element itself.
\<close>

datatype node = NText string | NNum int | Node element_type "string option" props "node list"

fun nodes :: "rnode \<Rightarrow> node list" where
  "nodes RNull = []"
| "nodes (RBool b) = []"
| "nodes (RStr s) = [NText s]"
| "nodes (RNum n) = [NNum n]"
| "nodes (RArr xs) = concat (map nodes xs)"
| "nodes (RElem t k i p c) = [Node t i p (nodes c)]"

text \<open>
  A tree with one subtree cut out: the path from the root to the hole, with the siblings
  to the left and to the right at every step. \<open>plug c n\<close> puts \<open>n\<close> into the hole.
\<close>

datatype ctx = Hole | Under element_type "string option" props "node list" ctx "node list"

fun plug :: "ctx \<Rightarrow> node \<Rightarrow> node" where
  "plug Hole n = n"
| "plug (Under t i p l c r) n = Node t i p (l @ plug c n # r)"

text \<open>
  All elements of a tree in pre-order: an element, then the elements of its children from
  left to right, at every depth.
\<close>

fun elements :: "rnode \<Rightarrow> rnode list" where
  "elements (RElem t k i p c) = RElem t k i p c # elements c"
| "elements (RArr xs) = concat (map elements xs)"
| "elements _ = []"

text \<open>
  \<open>ContainsId\<close>: the node or one of its descendants has the id. \<open>occurrences\<close>: how many
  of them have it. \<open>ExtractId\<close>: the id of the node if it has one, otherwise the first id
  found among its descendants in pre-order; an empty string counts as no id, as it does in
  the test \<open>if (el.props.id)\<close>. \<open>isComposite\<close>: the node is a user-defined component,
  not a host element and not a Fragment.
\<close>

definition ContainsId :: "rnode \<Rightarrow> string \<Rightarrow> bool" where
  "ContainsId node targetId = (\<exists>e \<in> set (elements node). eid e = Some targetId)"

definition occurrences :: "string \<Rightarrow> rnode \<Rightarrow> nat" where
  "occurrences targetId node = length (filter (\<lambda>e. eid e = Some targetId) (elements node))"

definition first_id :: "rnode list \<Rightarrow> string option" where
  "first_id es = (case filter truthy_id (map eid es) of [] \<Rightarrow> None | i # _ \<Rightarrow> i)"

definition ExtractId :: "rnode \<Rightarrow> string option" where
  "ExtractId node = first_id (elements node)"

definition isComposite :: "rnode \<Rightarrow> bool" where
  "isComposite node =
     (case etype node of Host tag \<Rightarrow> False | Fragment \<Rightarrow> False | Component name \<Rightarrow> True)"

text \<open>
  What injection does to one element: type and id stay, and the props are the old props
  with the capabilities assigned over them if the element is composite, the old props
  otherwise.
\<close>

definition injected :: "props \<Rightarrow> rnode \<Rightarrow> rnode \<Rightarrow> bool" where
  "injected caps old new \<longleftrightarrow>
     etype new = etype old \<and> eid new = eid old \<and>
     eprops new = (if isComposite old then assign (eprops old) caps else eprops old)"

section \<open>Leaves, elements and nodes\<close>

lemma leaves_not_array: "x \<in> set (leaves c) \<Longrightarrow> \<not> isArray x"
  by (induction c arbitrary: x) auto

lemma elements_leaves: "concat (map elements (leaves c)) = elements c"
proof (induction c)
  case (RArr xs)
  then show ?case by (induction xs) auto
qed auto

lemma elements_falsy: "\<not> truthy c \<Longrightarrow> elements c = []"
  by (cases c) auto

lemma elements_non_element: "\<not> isValidElement x \<Longrightarrow> \<not> isArray x \<Longrightarrow> elements x = []"
  by (cases x) auto

lemma elements_filter_null:
  "concat (map elements (filter (\<lambda>y. y \<noteq> RNull) xs)) = concat (map elements xs)"
  by (induction xs) auto

lemma elements_pushed: "concat (map elements (pushed m)) = elements m"
proof (cases m)
  case (RArr ys)
  have "concat (map elements (pushed (RArr ys))) = concat (map elements (leaves (RArr ys)))"
    by (simp only: pushed.simps elements_filter_null)
  then show ?thesis using RArr by (simp only: elements_leaves)
qed auto

lemma elements_Children_map:
  "c \<noteq> RNull \<Longrightarrow>
     elements (Children_map f c) = concat (map (\<lambda>x. elements (f x)) (leaves c))"
proof -
  have "concat (map elements (concat (map (\<lambda>child. pushed (f child)) xs)))
          = concat (map (\<lambda>x. elements (f x)) xs)" for xs
    by (induction xs) (auto simp: elements_pushed)
  then show "c \<noteq> RNull \<Longrightarrow> ?thesis" by (simp add: Children_map_def)
qed

lemma nodes_leaves: "concat (map nodes (leaves c)) = nodes c"
proof (induction c)
  case (RArr xs)
  then show ?case by (induction xs) auto
qed auto

lemma nodes_filter_null:
  "concat (map nodes (filter (\<lambda>y. y \<noteq> RNull) xs)) = concat (map nodes xs)"
  by (induction xs) auto

lemma nodes_pushed: "concat (map nodes (pushed m)) = nodes m"
proof (cases m)
  case (RArr ys)
  have "concat (map nodes (pushed (RArr ys))) = concat (map nodes (leaves (RArr ys)))"
    by (simp only: pushed.simps nodes_filter_null)
  then show ?thesis using RArr by (simp only: nodes_leaves)
qed auto

lemma nodes_Children_map:
  "c \<noteq> RNull \<Longrightarrow> nodes (Children_map f c) = concat (map (\<lambda>x. nodes (f x)) (leaves c))"
proof -
  have "concat (map nodes (concat (map (\<lambda>child. pushed (f child)) xs)))
          = concat (map (\<lambda>x. nodes (f x)) xs)" for xs
    by (induction xs) (auto simp: nodes_pushed)
  then show "c \<noteq> RNull \<Longrightarrow> ?thesis" by (simp add: Children_map_def)
qed

lemma assign_Nil [simp]: "assign p [] = p"
  by (simp add: assign_def)

lemma map_of_set_prop: "map_of (set_prop k v p) = (map_of p)(k \<mapsto> v)"
  by (induction p) auto

lemma map_of_assign_capabilities:
  "map_of (assign p (capability_props a b c))
     = (map_of p)(''isPreview'' \<mapsto> a, ''onEditSection'' \<mapsto> b, ''onAddSection'' \<mapsto> c)"
  by (simp add: assign_def capability_props_def map_of_set_prop)

lemma list_all2_concat_map:
  "(\<And>x. x \<in> set xs \<Longrightarrow> list_all2 R (f x) (g x))
     \<Longrightarrow> list_all2 R (concat (map f xs)) (concat (map g xs))"
  by (induction xs) (auto intro: list_all2_appendI)

section \<open>hasSectionId decides ContainsId\<close>

lemma fold_found:
  "fold (\<lambda>child found. if \<not> found \<and> Q child then True else found) xs b
     = (b \<or> (\<exists>x \<in> set xs. Q x))"
  by (induction xs arbitrary: b) auto

lemma hasSectionId_iff: "hasSectionId n t = (\<not> isArray n \<and> ContainsId n t)"
proof (induction n t rule: hasSectionId.induct)
  case (1 t k i p c targetId)
  show ?case
  proof (cases "i = Some targetId")
    case True
    then show ?thesis by (simp add: ContainsId_def)
  next
    case False
    have ih: "\<And>x. x \<in> set (leaves c) \<Longrightarrow> hasSectionId x targetId = ContainsId x targetId"
      using "1.IH" [OF False] leaves_not_array by blast
    have "hasSectionId (RElem t k i p c) targetId
            = (c \<noteq> RNull \<and> (\<exists>x \<in> set (leaves c). hasSectionId x targetId))"
      using False by (simp add: Children_forEach_def fold_found)
    also have "\<dots> = (\<exists>x \<in> set (leaves c). ContainsId x targetId)"
      using ih by (cases "c = RNull") (auto simp: ContainsId_def)
    also have "\<dots> = (\<exists>e \<in> set (concat (map elements (leaves c))). eid e = Some targetId)"
      by (auto simp: ContainsId_def)
    also have "\<dots> = ContainsId (RElem t k i p c) targetId"
      using False by (simp add: elements_leaves ContainsId_def)
    finally show ?thesis by simp
  qed
qed (simp_all add: ContainsId_def)

lemma hasSectionId_top: "isValidElement s \<Longrightarrow> hasSectionId s t = ContainsId s t"
  by (cases s) (simp_all add: hasSectionId_iff)

lemma filter_top:
  "list_all isValidElement xs \<Longrightarrow>
     filter (\<lambda>s. \<not> hasSectionId s t) xs = filter (\<lambda>s. \<not> ContainsId s t) xs"
  by (induction xs) (auto simp: hasSectionId_top)

lemma Bex_hasSectionId:
  "list_all isValidElement xs \<Longrightarrow>
     (\<exists>s \<in> set xs. hasSectionId s t) = (\<exists>s \<in> set xs. ContainsId s t)"
  by (auto simp: list_all_iff hasSectionId_top)

lemma ContainsId_leaf: "x \<in> set (leaves c) \<Longrightarrow> ContainsId x t \<Longrightarrow> ContainsId c t"
  unfolding ContainsId_def by (subst elements_leaves [symmetric]) auto

section \<open>getSectionIdFromElement computes ExtractId\<close>

lemma first_id_Nil [simp]: "first_id [] = None"
  by (simp add: first_id_def)

lemma first_id_Cons: "first_id (e # es) = (if truthy_id (eid e) then eid e else first_id es)"
  by (simp add: first_id_def)

lemma first_id_result: "first_id es = None \<or> truthy_id (first_id es)"
  by (induction es) (auto simp: first_id_Cons)

lemma first_id_append:
  "first_id (xs @ ys) = (if truthy_id (first_id xs) then first_id xs else first_id ys)"
  by (induction xs) (auto simp: first_id_Cons)

lemma fold_foundId:
  assumes "\<And>x. x \<in> set xs \<Longrightarrow> isValidElement x \<Longrightarrow> g x = first_id (elements x)"
    and "\<And>x. x \<in> set xs \<Longrightarrow> \<not> isArray x"
    and "a = None \<or> truthy_id a"
  shows "fold (\<lambda>child foundId.
                 if \<not> truthy_id foundId \<and> isValidElement child then g child else foundId) xs a
           = (if truthy_id a then a else first_id (concat (map elements xs)))"
  using assms
proof (induction xs arbitrary: a)
  case Nil
  then show ?case by auto
next
  case (Cons x xs)
  let ?f = "\<lambda>child foundId.
              if \<not> truthy_id foundId \<and> isValidElement child then g child else foundId"
  have step: "fold ?f (x # xs) a = fold ?f xs (?f x a)" by simp
  have a': "?f x a = None \<or> truthy_id (?f x a)"
    using Cons.prems first_id_result [of "elements x"] by auto
  have "fold ?f xs (?f x a)
          = (if truthy_id (?f x a) then ?f x a else first_id (concat (map elements xs)))"
    using Cons.IH [OF _ _ a'] Cons.prems(1,2) by simp
  moreover have "(if truthy_id (?f x a) then ?f x a else first_id (concat (map elements xs)))
          = (if truthy_id a then a else first_id (concat (map elements (x # xs))))"
  proof (cases "truthy_id a")
    case True
    then show ?thesis by simp
  next
    case False
    show ?thesis
    proof (cases "isValidElement x")
      case True
      then have "?f x a = first_id (elements x)" using False Cons.prems(1) by simp
      then show ?thesis using False by (simp add: first_id_append)
    next
      case v: False
      then have "elements x = []" using Cons.prems(2) by (simp add: elements_non_element)
      then show ?thesis using False v by simp
    qed
  qed
  ultimately show ?case using step by simp
qed

lemma getSectionIdFromElement_ExtractId:
  "getSectionIdFromElement n = (if isValidElement n then ExtractId n else None)"
proof (induction n rule: getSectionIdFromElement.induct)
  case (1 t k i p c)
  show ?case
  proof (cases "truthy_id i")
    case True
    then show ?thesis by (simp add: ExtractId_def first_id_Cons)
  next
    case nt: False
    show ?thesis
    proof (cases "truthy c")
      case True
      have ih: "\<And>x. x \<in> set (leaves c) \<Longrightarrow> isValidElement x
                  \<Longrightarrow> getSectionIdFromElement x = first_id (elements x)"
        using "1.IH" [of _ None] nt True by (simp add: ExtractId_def)
      have "c \<noteq> RNull" using True by auto
      then have "getSectionIdFromElement (RElem t k i p c)
              = fold (\<lambda>child foundId. if \<not> truthy_id foundId \<and> isValidElement child
                                      then getSectionIdFromElement child else foundId)
                  (leaves c) None"
        using nt True by (simp add: Children_forEach_def)
      also have "\<dots> = first_id (concat (map elements (leaves c)))"
        using fold_foundId [of "leaves c" getSectionIdFromElement None] ih leaves_not_array
        by simp
      finally show ?thesis using nt by (simp add: ExtractId_def first_id_Cons elements_leaves)
    next
      case False
      then show ?thesis using nt by (simp add: ExtractId_def first_id_Cons elements_falsy)
    qed
  qed
qed simp_all

section \<open>replaceSectionContent\<close>

lemma replace_root:
  "isValidElement (replaceSectionContent n t x) = isValidElement n
     \<and> ekey (replaceSectionContent n t x) = ekey n"
  by (cases n) auto

lemma replace_absent: "\<not> ContainsId n t \<Longrightarrow> nodes (replaceSectionContent n t x) = nodes n"
proof (induction n t x rule: replaceSectionContent.induct)
  case (1 t k i p c targetId newContent)
  have ne: "i \<noteq> Some targetId" using "1.prems" by (auto simp: ContainsId_def)
  have nc: "\<not> ContainsId c targetId" using "1.prems" by (auto simp: ContainsId_def)
  show ?case
  proof (cases "truthy c")
    case True
    then have "c \<noteq> RNull" by auto
    have "map (\<lambda>z. nodes (replaceSectionContent z targetId newContent)) (leaves c)
            = map nodes (leaves c)"
      using "1.IH" [OF ne True] nc ContainsId_leaf by (intro map_cong) auto
    then have "concat (map (\<lambda>z. nodes (replaceSectionContent z targetId newContent)) (leaves c))
            = nodes c"
      by (simp only: nodes_leaves)
    then show ?thesis using ne True \<open>c \<noteq> RNull\<close>
      by (simp add: nodes_Children_map)
  next
    case False
    then show ?thesis using ne by simp
  qed
qed simp_all

lemma split_single:
  "length (filter P (concat (map f xs))) = 1 \<Longrightarrow>
     \<exists>l y r. xs = l @ y # r \<and> length (filter P (f y)) = 1
        \<and> (\<forall>z \<in> set l \<union> set r. filter P (f z) = [])"
proof (induction xs)
  case Nil
  then show ?case by simp
next
  case (Cons x xs)
  show ?case
  proof (cases "filter P (f x) = []")
    case True
    then have "length (filter P (concat (map f xs))) = 1" using Cons.prems by simp
    then obtain l y r where "xs = l @ y # r" "length (filter P (f y)) = 1"
      "\<forall>z \<in> set l \<union> set r. filter P (f z) = []" using Cons.IH by blast
    then have "x # xs = (x # l) @ y # r \<and> length (filter P (f y)) = 1
        \<and> (\<forall>z \<in> set (x # l) \<union> set r. filter P (f z) = [])" using True by auto
    then show ?thesis by blast
  next
    case False
    then have ge: "length (filter P (f x)) \<ge> 1" by (cases "filter P (f x)") auto
    from Cons.prems
    have sum: "length (filter P (f x)) + length (filter P (concat (map f xs))) = 1" by simp
    from ge sum have one: "length (filter P (f x)) = 1" by arith
    from ge sum have "length (filter P (concat (map f xs))) = 0" by arith
    then have rest: "filter P (concat (map f xs)) = []" by simp
    have "\<forall>z \<in> set xs. filter P (f z) = []"
      using rest by (auto simp: filter_empty_conv)
    then have "x # xs = [] @ x # xs \<and> length (filter P (f x)) = 1
        \<and> (\<forall>z \<in> set [] \<union> set xs. filter P (f z) = [])" using one by simp
    then show ?thesis by blast
  qed
qed

lemma replace_once:
  "occurrences t n = 1 \<Longrightarrow> \<not> isArray n \<Longrightarrow>
     \<exists>c ty p ch. nodes n = [plug c (Node ty (Some t) p ch)]
        \<and> nodes (replaceSectionContent n t x) = [plug c (Node ty (Some t) p (nodes x))]"
proof (induction n t x rule: replaceSectionContent.induct)
  case (1 t k i p c targetId newContent)
  show ?case
  proof (cases "i = Some targetId")
    case True
    then have "nodes (RElem t k i p c) = [plug Hole (Node t (Some targetId) p (nodes c))]
       \<and> nodes (replaceSectionContent (RElem t k i p c) targetId newContent)
           = [plug Hole (Node t (Some targetId) p (nodes newContent))]" by simp
    then show ?thesis by blast
  next
    case False
    let ?P = "\<lambda>e. eid e = Some targetId"
    let ?rep = "\<lambda>z. replaceSectionContent z targetId newContent"
    have occ: "length (filter ?P (concat (map elements (leaves c)))) = 1"
      using "1.prems"(1) False by (simp add: occurrences_def elements_leaves)
    then obtain l y r where split: "leaves c = l @ y # r"
      and y1: "length (filter ?P (elements y)) = 1"
      and others: "\<forall>z \<in> set l \<union> set r. filter ?P (elements z) = []"
      using split_single [of ?P elements "leaves c"] by blast
    have tr: "truthy c"
    proof (rule ccontr)
      assume "\<not> truthy c"
      then have "elements c = []" by (rule elements_falsy)
      then show False using occ by (simp add: elements_leaves)
    qed
    then have cn: "c \<noteq> RNull" by auto
    have yin: "y \<in> set (leaves c)" using split by simp
    have "\<exists>c' ty p' ch. nodes y = [plug c' (Node ty (Some targetId) p' ch)]
        \<and> nodes (?rep y) = [plug c' (Node ty (Some targetId) p' (nodes newContent))]"
      using "1.IH" [OF False tr yin] y1 leaves_not_array [OF yin] by (simp add: occurrences_def)
    then obtain c' ty p' ch where ny: "nodes y = [plug c' (Node ty (Some targetId) p' ch)]"
      and nry: "nodes (?rep y) = [plug c' (Node ty (Some targetId) p' (nodes newContent))]"
      by blast
    have same: "\<And>z. z \<in> set l \<union> set r \<Longrightarrow> nodes (?rep z) = nodes z"
      using others by (intro replace_absent) (auto simp: ContainsId_def filter_empty_conv)
    have "map (\<lambda>z. nodes (?rep z)) l = map nodes l" using same by (intro map_cong) auto
    then have ml: "concat (map (\<lambda>z. nodes (?rep z)) l) = concat (map nodes l)"
      by (rule arg_cong)
    have "map (\<lambda>z. nodes (?rep z)) r = map nodes r" using same by (intro map_cong) auto
    then have mr: "concat (map (\<lambda>z. nodes (?rep z)) r) = concat (map nodes r)"
      by (rule arg_cong)
    let ?L = "concat (map nodes l)" and ?R = "concat (map nodes r)"
    have before: "nodes (RElem t k i p c)
        = [plug (Under t i p ?L c' ?R) (Node ty (Some targetId) p' ch)]"
      using split ny by (simp add: nodes_leaves [symmetric, of c])
    have after: "nodes (?rep (RElem t k i p c))
        = [plug (Under t i p ?L c' ?R) (Node ty (Some targetId) p' (nodes newContent))]"
      using False tr cn split nry ml mr by (simp add: nodes_Children_map)
    from before after show ?thesis by blast
  qed
qed (simp_all add: occurrences_def)

section \<open>deepCloneWithProps\<close>

lemma deepClone_injected:
  "\<not> isArray n \<Longrightarrow>
     list_all2 (injected caps) (elements n) (elements (deepCloneWithProps n caps))"
proof (induction n caps rule: deepCloneWithProps.induct)
  case (1 t k i p c props)
  let ?c' = "if truthy c then Children_map (\<lambda>child. deepCloneWithProps child props) c
             else RNull"
  let ?p' = "if isComposite (RElem t k i p c) then assign p props else p"
  have res: "deepCloneWithProps (RElem t k i p c) props = RElem t k i ?p' ?c'"
    by (cases t) (simp_all add: Let_def isComposite_def)
  have hd: "injected props (RElem t k i p c) (RElem t k i ?p' ?c')"
    by (simp add: injected_def)
  have tl: "list_all2 (injected props) (elements c) (elements ?c')"
  proof (cases "truthy c")
    case True
    then have cn: "c \<noteq> RNull" by auto
    have "list_all2 (injected props) (concat (map elements (leaves c)))
            (concat (map (\<lambda>x. elements (deepCloneWithProps x props)) (leaves c)))"
      using "1.IH" [OF refl refl refl True] leaves_not_array
      by (intro list_all2_concat_map) blast
    then show ?thesis using True cn by (simp add: elements_Children_map elements_leaves)
  next
    case False
    then show ?thesis by (simp add: elements_falsy)
  qed
  show ?case unfolding res using hd tl by simp
qed simp_all

section \<open>The store\<close>

lemma findIndex_none: "\<not> (\<exists>x \<in> set xs. P x) \<Longrightarrow> findIndex P xs = - 1"
  by (induction xs) auto

lemma findIndex_found:
  "\<exists>x \<in> set xs. P x \<Longrightarrow>
     \<exists>i < length xs. findIndex P xs = int i \<and> P (xs ! i) \<and> (\<forall>j < i. \<not> P (xs ! j))"
proof (induction xs)
  case Nil
  then show ?case by simp
next
  case (Cons x xs)
  show ?case
  proof (cases "P x")
    case True
    then have "0 < length (x # xs) \<and> findIndex P (x # xs) = int 0 \<and> P ((x # xs) ! 0)
        \<and> (\<forall>j < 0. \<not> P ((x # xs) ! j))" by simp
    then show ?thesis by blast
  next
    case False
    then have "\<exists>x \<in> set xs. P x" using Cons.prems by auto
    then obtain i where i: "i < length xs" "findIndex P xs = int i" "P (xs ! i)"
      "\<forall>j < i. \<not> P (xs ! j)" using Cons.IH by blast
    have "\<forall>j < Suc i. \<not> P ((x # xs) ! j)"
    proof (intro allI impI)
      fix j assume "j < Suc i"
      then show "\<not> P ((x # xs) ! j)" using False i(4) by (cases j) auto
    qed
    moreover have "findIndex P (x # xs) = int (Suc i)" using False i(2) by (simp add: Let_def)
    ultimately have "Suc i < length (x # xs) \<and> findIndex P (x # xs) = int (Suc i)
        \<and> P ((x # xs) ! Suc i) \<and> (\<forall>j < Suc i. \<not> P ((x # xs) ! j))"
      using i(1,3) by simp
    then show ?thesis by blast
  qed
qed

lemma of_char_digit: "d < 10 \<Longrightarrow> of_char (digit_char d) = (48 + d :: nat)"
proof -
  assume "d < 10"
  then have "d \<in> {0, 1, 2, 3, 4, 5, 6, 7, 8, 9}" by auto
  then show ?thesis by (auto simp: digit_char_def)
qed

lemma decimal_value_snoc:
  "decimal_value (s @ [c]) = 10 * decimal_value s + (of_char c - 48)"
  by (simp add: decimal_value_def)

lemma decimal_value_show_nat: "decimal_value (show_nat n) = n"
proof (induction n rule: show_nat.induct)
  case (1 n)
  show ?case
  proof (cases "n < 10")
    case True
    then show ?thesis
      by (subst show_nat.simps) (simp add: decimal_value_def of_char_digit)
  next
    case False
    have "n mod 10 < 10" by simp
    then have d: "of_char (digit_char (n mod 10)) = (48 + n mod 10 :: nat)" by (rule of_char_digit)
    have "decimal_value (show_nat n) = 10 * decimal_value (show_nat (n div 10)) + n mod 10"
      using False d by (subst show_nat.simps) (simp add: decimal_value_snoc)
    then show ?thesis using "1.IH" [OF False] by simp
  qed
qed

lemma show_nat_inj: "show_nat m = show_nat n \<Longrightarrow> m = n"
proof -
  assume "show_nat m = show_nat n"
  then have "decimal_value (show_nat m) = decimal_value (show_nat n)" by (rule arg_cong)
  then show "m = n" by (simp only: decimal_value_show_nat)
qed


lemma ContainsId_newSection: "ContainsId (newSection now) (''section-'' @ show_nat now)"
  by (simp add: newSection_def ContainsId_def Let_def)

lemma filter_splice:
  assumes "\<forall>s \<in> set xs. \<not> P s" and "P y"
  shows "filter P (take n xs @ y # drop n xs) = [y]"
proof -
  have "filter P (take n xs) = []"
    using assms(1) by (auto simp: filter_empty_conv dest: in_set_takeD)
  moreover have "filter P (drop n xs) = []"
    using assms(1) by (auto simp: filter_empty_conv dest: in_set_dropD)
  ultimately show ?thesis using assms(2) by simp
qed

lemma ExtractId_newSection: "ExtractId (newSection now) = Some (''section-'' @ show_nat now)"
  by (simp add: newSection_def ExtractId_def first_id_def Let_def)

lemma startsWith_replace_first:
  "startsWith s p \<Longrightarrow> replace_first p rep s = rep @ drop (length p) s"
  by (cases s) (auto simp: startsWith_def)

lemma reorderSectionId_spec:
  assumes "isValidElement s"
  shows "reorderSectionId s =
     (case ekey s of
        Some k \<Rightarrow> if startsWith k ''layout-'' then drop 7 k
                  else (case ExtractId s of Some i \<Rightarrow> i | None \<Rightarrow> ''unknown'')
      | None \<Rightarrow> (case ExtractId s of Some i \<Rightarrow> i | None \<Rightarrow> ''unknown''))"
proof -
  have ex: "(case getSectionIdFromElement s of None \<Rightarrow> ''unknown''
             | Some i \<Rightarrow> if i = [] then ''unknown'' else i)
          = (case ExtractId s of Some i \<Rightarrow> i | None \<Rightarrow> ''unknown'')"
    using assms first_id_result [of "elements s"]
    by (auto simp: getSectionIdFromElement_ExtractId ExtractId_def split: option.splits)
  show ?thesis
  proof (cases "ekey s")
    case None
    then show ?thesis using ex by (simp add: reorderSectionId_def)
  next
    case (Some k)
    show ?thesis
    proof (cases "startsWith k ''layout-''")
      case True
      then have "k \<noteq> []" by (auto simp: startsWith_def)
      then show ?thesis using Some True
        by (simp add: reorderSectionId_def startsWith_replace_first eval_nat_numeral)
    next
      case False
      then show ?thesis using Some ex by (simp add: reorderSectionId_def)
    qed
  qed
qed

section \<open>The loading effect\<close>

lemma cancelled_inv:
  "cancelled s \<Longrightarrow> \<not> subscribed s \<Longrightarrow>
     cancelled (run dev s evs) \<and> \<not> subscribed (run dev s evs) \<and>
     initialSections (run dev s evs) = initialSections s \<and>
     loadingSections (run dev s evs) = loadingSections s \<and>
     cleanup (run dev s evs) = cleanup s"
proof (induction evs arbitrary: s)
  case Nil
  then show ?case by (simp add: run_def)
next
  case (Cons ev evs)
  have st: "cancelled (step dev s ev) \<and> \<not> subscribed (step dev s ev) \<and>
     initialSections (step dev s ev) = initialSections s \<and>
     loadingSections (step dev s ev) = loadingSections s \<and>
     cleanup (step dev s ev) = cleanup s"
    using Cons.prems by (cases ev) auto
  have "run dev s (ev # evs) = run dev (step dev s ev) evs" by (simp add: run_def)
  then show ?case using Cons.IH [of "step dev s ev"] st by simp
qed

section \<open>The section input\<close>

lemma dropWhile_all_iff: "(\<forall>c \<in> set (dropWhile P s). P c) \<longleftrightarrow> (\<forall>c \<in> set s. P c)"
proof
  assume a: "\<forall>c \<in> set (dropWhile P s). P c"
  have "dropWhile P s = []"
  proof (rule ccontr)
    assume ne: "dropWhile P s \<noteq> []"
    then have "\<not> P (hd (dropWhile P s))" by (rule hd_dropWhile)
    moreover from ne have "hd (dropWhile P s) \<in> set (dropWhile P s)" by (rule hd_in_set)
    ultimately show False using a by blast
  qed
  then show "\<forall>c \<in> set s. P c" by simp
next
  assume "\<forall>c \<in> set s. P c"
  then show "\<forall>c \<in> set (dropWhile P s). P c" by (blast dest: set_dropWhileD)
qed

lemma trim_empty_iff: "trim s = [] \<longleftrightarrow> (\<forall>c \<in> set s. isWhiteSpace c)"
proof -
  have "trim s = [] \<longleftrightarrow> (\<forall>c \<in> set (dropWhile isWhiteSpace s). isWhiteSpace c)"
    by (simp add: trim_def)
  then show ?thesis by (simp only: dropWhile_all_iff)
qed

section \<open>The claims\<close>

text \<open>
  C1. Prop injection respects the kind of every node, at every depth. Take a section and
  the capability bundle \<open>{ isPreview, onEditSection, onAddSection }\<close>. The elements of
  the clone, in pre-order, are as many as those of the section and correspond to them one
  by one, with the same type and id. A clone that is opaque (a host element or a Fragment)
  has exactly the props of its original: no capability key is placed on it. A clone that
  is composite carries all three capability keys with the values of the bundle, and its
  other props are those of its original. Since the lists hold every element of the tree,
  composite elements below opaque ones (and below composite ones) are included: the
  children of an opaque element are still processed.
\<close>

theorem deepCloneWithProps_respects_kind:
  assumes "isValidElement sec"
  shows "list_all2
     (\<lambda>old new. etype new = etype old \<and> eid new = eid old \<and>
        (if isComposite new then
           map_of (eprops new) ''isPreview'' = Some a \<and>
           map_of (eprops new) ''onEditSection'' = Some b \<and>
           map_of (eprops new) ''onAddSection'' = Some c \<and>
           (\<forall>k. k \<notin> {''isPreview'', ''onEditSection'', ''onAddSection''}
                \<longrightarrow> map_of (eprops new) k = map_of (eprops old) k)
         else eprops new = eprops old))
     (elements sec) (elements (deepCloneWithProps sec (capability_props a b c)))"
proof -
  have na: "\<not> isArray sec" using assms by (cases sec) auto
  show ?thesis
  proof (rule list_all2_mono [OF deepClone_injected [OF na]])
    fix old new
    assume inj: "injected (capability_props a b c) old new"
    have comp: "isComposite new = isComposite old"
      using inj by (simp add: injected_def isComposite_def)
    show "etype new = etype old \<and> eid new = eid old \<and>
        (if isComposite new then
           map_of (eprops new) ''isPreview'' = Some a \<and>
           map_of (eprops new) ''onEditSection'' = Some b \<and>
           map_of (eprops new) ''onAddSection'' = Some c \<and>
           (\<forall>k. k \<notin> {''isPreview'', ''onEditSection'', ''onAddSection''}
                \<longrightarrow> map_of (eprops new) k = map_of (eprops old) k)
         else eprops new = eprops old)"
      using inj comp by (simp add: injected_def map_of_assign_capabilities)
  qed
qed

theorem deepCloneWithProps_respects_kind_witness:
  "list_all2
     (\<lambda>old new. etype new = etype old \<and> eid new = eid old \<and>
        (if isComposite new then
           map_of (eprops new) ''isPreview'' = Some (PBool False) \<and>
           map_of (eprops new) ''onEditSection'' = Some PUndefined \<and>
           map_of (eprops new) ''onAddSection'' = Some (PFun ''handleAddSection'') \<and>
           (\<forall>k. k \<notin> {''isPreview'', ''onEditSection'', ''onAddSection''}
                \<longrightarrow> map_of (eprops new) k = map_of (eprops old) k)
         else eprops new = eprops old))
     (elements
        (RElem (Component ''FullWidthLayout'') (Some ''intro'') None [(''maxWidth'', PStr ''xl'')]
          (RElem (Host ''div'') None None [(''className'', PStr ''w-full'')]
            (RArr [RStr ''Intro'', RBool False,
                   RElem (Component ''Section'') None (Some ''s1'') [] (RStr ''text'')]))))
     (elements
        (deepCloneWithProps
          (RElem (Component ''FullWidthLayout'') (Some ''intro'') None [(''maxWidth'', PStr ''xl'')]
            (RElem (Host ''div'') None None [(''className'', PStr ''w-full'')]
              (RArr [RStr ''Intro'', RBool False,
                     RElem (Component ''Section'') None (Some ''s1'') [] (RStr ''text'')])))
          (capability_props (PBool False) PUndefined (PFun ''handleAddSection''))))
   \<and> map (\<lambda>e. (etype e, map fst (eprops e)))
       (elements
        (deepCloneWithProps
          (RElem (Component ''FullWidthLayout'') (Some ''intro'') None [(''maxWidth'', PStr ''xl'')]
            (RElem (Host ''div'') None None [(''className'', PStr ''w-full'')]
              (RArr [RStr ''Intro'', RBool False,
                     RElem (Component ''Section'') None (Some ''s1'') [] (RStr ''text'')])))
          (capability_props (PBool False) PUndefined (PFun ''handleAddSection''))))
     = [(Component ''FullWidthLayout'',
           [''maxWidth'', ''isPreview'', ''onEditSection'', ''onAddSection'']),
        (Host ''div'', [''className'']),
        (Component ''Section'', [''isPreview'', ''onEditSection'', ''onAddSection''])]"
proof (rule conjI)
  show "map (\<lambda>e. (etype e, map fst (eprops e)))
       (elements
        (deepCloneWithProps
          (RElem (Component ''FullWidthLayout'') (Some ''intro'') None [(''maxWidth'', PStr ''xl'')]
            (RElem (Host ''div'') None None [(''className'', PStr ''w-full'')]
              (RArr [RStr ''Intro'', RBool False,
                     RElem (Component ''Section'') None (Some ''s1'') [] (RStr ''text'')])))
          (capability_props (PBool False) PUndefined (PFun ''handleAddSection''))))
     = [(Component ''FullWidthLayout'',
           [''maxWidth'', ''isPreview'', ''onEditSection'', ''onAddSection'']),
        (Host ''div'', [''className'']),
        (Component ''Section'', [''isPreview'', ''onEditSection'', ''onAddSection''])]"
    by (simp add: capability_props_def Children_map_def assign_def)
qed (rule deepCloneWithProps_respects_kind, simp)

text \<open>
  C2. Replacing the content of a section is targeted. Take an element in which
  \<open>targetId\<close> is the id of exactly one element. Then its tree is a context \<open>c\<close> around
  one node with that id, and the tree of \<open>replaceSectionContent\<close> is the same context
  around a node with the same type, id and props whose children are the nodes of the new
  content. The context holds every ancestor and every sibling subtree, so these are
  what they were. The result is again an element, with the key of the original.
\<close>

theorem replaceSectionContent_targeted:
  assumes "isValidElement element" and "occurrences targetId element = 1"
  shows "(\<exists>c ty p ch.
            nodes element = [plug c (Node ty (Some targetId) p ch)] \<and>
            nodes (replaceSectionContent element targetId newContent)
              = [plug c (Node ty (Some targetId) p (nodes newContent))]) \<and>
         isValidElement (replaceSectionContent element targetId newContent) \<and>
         ekey (replaceSectionContent element targetId newContent) = ekey element"
proof -
  have "\<not> isArray element" using assms(1) by (cases element) auto
  then have "\<exists>c ty p ch.
            nodes element = [plug c (Node ty (Some targetId) p ch)] \<and>
            nodes (replaceSectionContent element targetId newContent)
              = [plug c (Node ty (Some targetId) p (nodes newContent))]"
    using assms(2) by (intro replace_once)
  then show ?thesis using assms(1) replace_root [of element targetId newContent] by simp
qed

theorem replaceSectionContent_targeted_witness:
  "nodes (replaceSectionContent
            (RElem (Component ''SplitLayout'') (Some ''row'') None [(''ratio'', PStr ''1:1'')]
              (RArr [RElem (Component ''Section'') None (Some ''s1'') [(''className'', PStr ''mb-4'')]
                       (RElem (Component ''SectionInput'') None None [] RNull),
                     RElem (Component ''Section'') None (Some ''s2'') [] (RStr ''keep'')]))
            ''s1''
            (RElem (Host ''p'') None None [(''className'', PStr ''text-lg'')] (RStr ''hello'')))
     = [Node (Component ''SplitLayout'') None [(''ratio'', PStr ''1:1'')]
          [Node (Component ''Section'') (Some ''s1'') [(''className'', PStr ''mb-4'')]
             [Node (Host ''p'') None [(''className'', PStr ''text-lg'')] [NText ''hello'']],
           Node (Component ''Section'') (Some ''s2'') [] [NText ''keep'']]]
   \<and> ekey (replaceSectionContent
            (RElem (Component ''SplitLayout'') (Some ''row'') None [(''ratio'', PStr ''1:1'')]
              (RArr [RElem (Component ''Section'') None (Some ''s1'') [(''className'', PStr ''mb-4'')]
                       (RElem (Component ''SectionInput'') None None [] RNull),
                     RElem (Component ''Section'') None (Some ''s2'') [] (RStr ''keep'')]))
            ''s1''
            (RElem (Host ''p'') None None [(''className'', PStr ''text-lg'')] (RStr ''hello'')))
     = Some ''row''"
  using replaceSectionContent_targeted
    [of "RElem (Component ''SplitLayout'') (Some ''row'') None [(''ratio'', PStr ''1:1'')]
              (RArr [RElem (Component ''Section'') None (Some ''s1'') [(''className'', PStr ''mb-4'')]
                       (RElem (Component ''SectionInput'') None None [] RNull),
                     RElem (Component ''Section'') None (Some ''s2'') [] (RStr ''keep'')])"
        "''s1''"
        "RElem (Host ''p'') None None [(''className'', PStr ''text-lg'')] (RStr ''hello'')"]
  by (simp add: occurrences_def Children_map_def)

text \<open>
  C3. Delete removes the whole top-level owner. For a list of top-level elements and an
  id, \<open>handleDeleteSection\<close> keeps, in their order, exactly the top-level elements that do
  not contain the id (at any depth), removes every one that does, and posts one message
  \<open>commit-section-delete\<close> carrying that id; nothing else changes.
\<close>

theorem handleDeleteSection_removes_owner:
  assumes "list_all isValidElement (initialSections st)"
  shows "handleDeleteSection ident st =
           st\<lparr>initialSections := filter (\<lambda>node. \<not> ContainsId node ident) (initialSections st),
              posted := posted st @ [CommitSectionDelete ident]\<rparr>"
  using assms by (simp add: handleDeleteSection_def filter_top)

theorem handleDeleteSection_removes_owner_witness:
  "handleDeleteSection ''x''
     \<lparr>initialSections =
        [RElem (Component ''FullWidthLayout'') (Some ''e'') None []
           (RElem (Host ''div'') None None []
             (RArr [RStr ''a'',
                    RElem (Fragment) None None []
                      (RElem (Component ''Section'') None (Some ''x'') [] RNull)])),
         RElem (Component ''FullWidthLayout'') (Some ''f'') None []
           (RElem (Component ''Section'') None (Some ''y'') [] RNull)],
      posted = [], warnings = []\<rparr>
   = \<lparr>initialSections =
        [RElem (Component ''FullWidthLayout'') (Some ''f'') None []
           (RElem (Component ''Section'') None (Some ''y'') [] RNull)],
      posted = [CommitSectionDelete ''x''], warnings = []\<rparr>"
  using handleDeleteSection_removes_owner
    [of "\<lparr>initialSections =
        [RElem (Component ''FullWidthLayout'') (Some ''e'') None []
           (RElem (Host ''div'') None None []
             (RArr [RStr ''a'',
                    RElem (Fragment) None None []
                      (RElem (Component ''Section'') None (Some ''x'') [] RNull)])),
         RElem (Component ''FullWidthLayout'') (Some ''f'') None []
           (RElem (Component ''Section'') None (Some ''y'') [] RNull)],
      posted = [], warnings = []\<rparr>" "''x''"]
  by (simp add: ContainsId_def)

text \<open>
  C4, as amended. Add-Section-After splices one placeholder in, or does nothing but
  warn. The placeholder built at time \<open>now\<close> carries the id \<open>section-\<close> followed by
  \<open>now\<close> in decimal: the digits denote \<open>now\<close>, so placeholders built at different
  clock values carry different ids. If some top-level element contains \<open>targetId\<close>, then
  with \<open>i\<close> the index of the first such element the new list is the old one with the
  placeholder inserted right after position \<open>i\<close>: the elements up to \<open>i\<close>, the
  placeholder, the elements after \<open>i\<close>, all unchanged and in order, one element longer;
  nothing else changes. The id is new to the list when no element of the old list already
  has it, and then the placeholder is the only top-level element of the new list that
  contains it; the function does not check this. If no top-level element contains
  \<open>targetId\<close>, the list is unchanged and one warning is written. The function returns a
  state in both cases: it has no failing branch.
\<close>

theorem handleAddSection_splice:
  assumes "list_all isValidElement (initialSections st)"
  shows "ExtractId (newSection now) = Some (''section-'' @ show_nat now) \<and>
    decimal_value (show_nat now) = now \<and>
    (\<forall>m. ExtractId (newSection m) = ExtractId (newSection now) \<longrightarrow> m = now) \<and>
    (if \<exists>s \<in> set (initialSections st). ContainsId s targetId
     then \<exists>i < length (initialSections st).
            ContainsId (initialSections st ! i) targetId \<and>
            (\<forall>j < i. \<not> ContainsId (initialSections st ! j) targetId) \<and>
            handleAddSection targetId now st =
              st\<lparr>initialSections :=
                   take (Suc i) (initialSections st) @ newSection now
                     # drop (Suc i) (initialSections st)\<rparr> \<and>
            length (initialSections (handleAddSection targetId now st))
              = Suc (length (initialSections st)) \<and>
            ((\<forall>s \<in> set (initialSections st). \<not> ContainsId s (''section-'' @ show_nat now))
               \<longrightarrow> filter (\<lambda>s. ContainsId s (''section-'' @ show_nat now))
                     (initialSections (handleAddSection targetId now st)) = [newSection now])
     else handleAddSection targetId now st =
            st\<lparr>warnings := warnings st @ [[''Could not find section with id:'', targetId]]\<rparr>)"
proof -
  let ?xs = "initialSections st"
  let ?P = "\<lambda>s. hasSectionId s targetId"
  let ?new = "''section-'' @ show_nat now"
  have valid: "\<And>j. j < length ?xs \<Longrightarrow> isValidElement (?xs ! j)"
    using assms by (simp add: list_all_length)
  have a: "ExtractId (newSection now) = Some ?new" by (rule ExtractId_newSection)
  have b: "decimal_value (show_nat now) = now" by (rule decimal_value_show_nat)
  have c: "\<forall>m. ExtractId (newSection m) = ExtractId (newSection now) \<longrightarrow> m = now"
  proof (intro allI impI)
    fix m assume "ExtractId (newSection m) = ExtractId (newSection now)"
    then have "show_nat m = show_nat now" by (simp add: ExtractId_newSection)
    then show "m = now" by (rule show_nat_inj)
  qed
  have rest: "if \<exists>s \<in> set ?xs. ContainsId s targetId
     then \<exists>i < length ?xs.
            ContainsId (?xs ! i) targetId \<and>
            (\<forall>j < i. \<not> ContainsId (?xs ! j) targetId) \<and>
            handleAddSection targetId now st =
              st\<lparr>initialSections := take (Suc i) ?xs @ newSection now # drop (Suc i) ?xs\<rparr> \<and>
            length (initialSections (handleAddSection targetId now st)) = Suc (length ?xs) \<and>
            ((\<forall>s \<in> set ?xs. \<not> ContainsId s ?new)
               \<longrightarrow> filter (\<lambda>s. ContainsId s ?new)
                     (initialSections (handleAddSection targetId now st)) = [newSection now])
     else handleAddSection targetId now st =
            st\<lparr>warnings := warnings st @ [[''Could not find section with id:'', targetId]]\<rparr>"
  proof (cases "\<exists>s \<in> set ?xs. ContainsId s targetId")
    case True
    then have "\<exists>s \<in> set ?xs. ?P s" using assms by (simp add: Bex_hasSectionId)
    then obtain i where i: "i < length ?xs" "findIndex ?P ?xs = int i" "?P (?xs ! i)"
      "\<forall>j < i. \<not> ?P (?xs ! j)" using findIndex_found [of ?xs ?P] by blast
    have c1: "ContainsId (?xs ! i) targetId" using i(1,3) valid by (simp add: hasSectionId_top)
    have c2: "\<forall>j < i. \<not> ContainsId (?xs ! j) targetId"
      using i(1,4) valid by (simp add: hasSectionId_top)
    have "nat (int i + 1) = Suc i" by simp
    then have res: "handleAddSection targetId now st =
        st\<lparr>initialSections := take (Suc i) ?xs @ newSection now # drop (Suc i) ?xs\<rparr>"
      using i(2) by (simp add: handleAddSection_def Let_def)
    have len: "length (initialSections (handleAddSection targetId now st)) = Suc (length ?xs)"
      using i(1) by (simp add: res)
    have fresh: "(\<forall>s \<in> set ?xs. \<not> ContainsId s ?new)
               \<longrightarrow> filter (\<lambda>s. ContainsId s ?new)
                     (initialSections (handleAddSection targetId now st)) = [newSection now]"
    proof
      assume "\<forall>s \<in> set ?xs. \<not> ContainsId s ?new"
      then have "filter (\<lambda>s. ContainsId s ?new)
          (take (Suc i) ?xs @ newSection now # drop (Suc i) ?xs) = [newSection now]"
        using ContainsId_newSection [of now]
          filter_splice [of ?xs "\<lambda>s. ContainsId s ?new" "newSection now" "Suc i"]
        by blast
      then show "filter (\<lambda>s. ContainsId s ?new)
                     (initialSections (handleAddSection targetId now st)) = [newSection now]"
        by (simp add: res)
    qed
    from i(1) c1 c2 res len fresh
    have body: "i < length ?xs \<and>
            ContainsId (?xs ! i) targetId \<and>
            (\<forall>j < i. \<not> ContainsId (?xs ! j) targetId) \<and>
            handleAddSection targetId now st =
              st\<lparr>initialSections := take (Suc i) ?xs @ newSection now # drop (Suc i) ?xs\<rparr> \<and>
            length (initialSections (handleAddSection targetId now st)) = Suc (length ?xs) \<and>
            ((\<forall>s \<in> set ?xs. \<not> ContainsId s ?new)
               \<longrightarrow> filter (\<lambda>s. ContainsId s ?new)
                     (initialSections (handleAddSection targetId now st)) = [newSection now])"
      by (intro conjI)
    have "\<exists>i < length ?xs.
            ContainsId (?xs ! i) targetId \<and>
            (\<forall>j < i. \<not> ContainsId (?xs ! j) targetId) \<and>
            handleAddSection targetId now st =
              st\<lparr>initialSections := take (Suc i) ?xs @ newSection now # drop (Suc i) ?xs\<rparr> \<and>
            length (initialSections (handleAddSection targetId now st)) = Suc (length ?xs) \<and>
            ((\<forall>s \<in> set ?xs. \<not> ContainsId s ?new)
               \<longrightarrow> filter (\<lambda>s. ContainsId s ?new)
                     (initialSections (handleAddSection targetId now st)) = [newSection now])"
      by (rule exI [of _ i]) (rule body)
    then show ?thesis by (simp only: True if_True)
  next
    case False
    then have "\<not> (\<exists>s \<in> set ?xs. ?P s)" using assms by (simp add: Bex_hasSectionId)
    then have "findIndex ?P ?xs = - 1" by (rule findIndex_none)
    then have "handleAddSection targetId now st =
            st\<lparr>warnings := warnings st @ [[''Could not find section with id:'', targetId]]\<rparr>"
      by (simp add: handleAddSection_def)
    then show ?thesis by (simp only: False if_False)
  qed
  show ?thesis by (intro conjI a b c rest)
qed

theorem handleAddSection_splice_witness:
  "map ExtractId
     (initialSections
       (handleAddSection ''s1'' 42
         \<lparr>initialSections =
            [RElem (Component ''FullWidthLayout'') (Some ''a'') None []
               (RElem (Component ''Section'') None (Some ''s1'') [] RNull),
             RElem (Component ''FullWidthLayout'') (Some ''b'') None []
               (RElem (Component ''Section'') None (Some ''s2'') [] RNull)],
          posted = [], warnings = []\<rparr>))
     = [Some ''s1'', Some ''section-42'', Some ''s2'']
   \<and> map (\<lambda>s. ContainsId s ''section-42'')
     (initialSections
       (handleAddSection ''s1'' 42
         \<lparr>initialSections =
            [RElem (Component ''FullWidthLayout'') (Some ''a'') None []
               (RElem (Component ''Section'') None (Some ''s1'') [] RNull),
             RElem (Component ''FullWidthLayout'') (Some ''b'') None []
               (RElem (Component ''Section'') None (Some ''s2'') [] RNull)],
          posted = [], warnings = []\<rparr>))
     = [False, True, False]
   \<and> ExtractId (newSection 42) \<noteq> ExtractId (newSection 43)
   \<and> handleAddSection ''zz'' 42
         \<lparr>initialSections =
            [RElem (Component ''FullWidthLayout'') (Some ''a'') None []
               (RElem (Component ''Section'') None (Some ''s1'') [] RNull),
             RElem (Component ''FullWidthLayout'') (Some ''b'') None []
               (RElem (Component ''Section'') None (Some ''s2'') [] RNull)],
          posted = [], warnings = []\<rparr>
     = \<lparr>initialSections =
            [RElem (Component ''FullWidthLayout'') (Some ''a'') None []
               (RElem (Component ''Section'') None (Some ''s1'') [] RNull),
             RElem (Component ''FullWidthLayout'') (Some ''b'') None []
               (RElem (Component ''Section'') None (Some ''s2'') [] RNull)],
          posted = [], warnings = [[''Could not find section with id:'', ''zz'']]\<rparr>"
proof -
  let ?st = "\<lparr>initialSections =
            [RElem (Component ''FullWidthLayout'') (Some ''a'') None []
               (RElem (Component ''Section'') None (Some ''s1'') [] RNull),
             RElem (Component ''FullWidthLayout'') (Some ''b'') None []
               (RElem (Component ''Section'') None (Some ''s2'') [] RNull)],
          posted = [], warnings = []\<rparr>"
  have v: "list_all isValidElement (initialSections ?st)" by simp
  have d: "ExtractId (newSection 42) \<noteq> ExtractId (newSection 43)"
    using handleAddSection_splice [OF v, of 42 "''s1''"] by auto
  have z: "handleAddSection ''zz'' 42 ?st
     = ?st\<lparr>warnings := warnings ?st @ [[''Could not find section with id:'', ''zz'']]\<rparr>"
    using handleAddSection_splice [OF v, of 42 "''zz''"] by (simp add: ContainsId_def)
  have r: "initialSections (handleAddSection ''s1'' 42 ?st)
     = [RElem (Component ''FullWidthLayout'') (Some ''a'') None []
               (RElem (Component ''Section'') None (Some ''s1'') [] RNull),
        newSection 42,
        RElem (Component ''FullWidthLayout'') (Some ''b'') None []
               (RElem (Component ''Section'') None (Some ''s2'') [] RNull)]"
    by (simp add: handleAddSection_def Children_forEach_def)
  have n: "show_nat 42 = ''42''" by (simp add: show_nat.simps digit_char_def)
  show ?thesis using d z
    by (simp add: r n ExtractId_def first_id_def ContainsId_def newSection_def Let_def)
qed

text \<open>
  C4 as stated fails in its word \<open>freshly\<close>: the id comes from the clock alone and is
  not compared with the ids in the list. Two additions at the same clock value, the second
  after the placeholder of the first, leave two top-level elements with the same id and
  the same key.
\<close>

theorem handleAddSection_splice_counterexample:
  "map ExtractId
     (initialSections
       (handleAddSection ''section-42'' 42
         (handleAddSection ''s1'' 42
           \<lparr>initialSections =
              [RElem (Component ''FullWidthLayout'') (Some ''a'') None []
                 (RElem (Component ''Section'') None (Some ''s1'') [] RNull)],
            posted = [], warnings = []\<rparr>)))
     = [Some ''s1'', Some ''section-42'', Some ''section-42'']
   \<and> map ekey
     (initialSections
       (handleAddSection ''section-42'' 42
         (handleAddSection ''s1'' 42
           \<lparr>initialSections =
              [RElem (Component ''FullWidthLayout'') (Some ''a'') None []
                 (RElem (Component ''Section'') None (Some ''s1'') [] RNull)],
            posted = [], warnings = []\<rparr>)))
     = [Some ''a'', Some ''layout-section-42'', Some ''layout-section-42'']"
proof -
  have n: "show_nat 42 = ''42''" by (simp add: show_nat.simps digit_char_def)
  show ?thesis
    by (simp add: handleAddSection_def Children_forEach_def newSection_def Let_def n
        ExtractId_def first_id_def)
qed


text \<open>
  C5. Reorder takes the new order as it is and reports one id for each element. For any
  list of elements \<open>newOrder\<close>, whatever the list held before, \<open>handleReorder\<close> makes
  \<open>newOrder\<close> the top-level list and posts one message \<open>commit-section-reorder\<close> whose
  \<open>sectionIds\<close> are, element by element: the key without its prefix \<open>layout-\<close> when the
  key starts with that prefix; otherwise the result of \<open>ExtractId\<close>; and \<open>unknown\<close> when
  that finds no id. An element without any id whose key is \<open>layout-section-42\<close> is
  reported as \<open>section-42\<close>.
\<close>

theorem handleReorder_notifies:
  assumes "list_all isValidElement newOrder"
  shows "handleReorder newOrder st =
     st\<lparr>initialSections := newOrder,
        posted := posted st @
          [CommitSectionReorder
             (map (\<lambda>s. case ekey s of
                        Some k \<Rightarrow> if startsWith k ''layout-'' then drop 7 k
                                  else (case ExtractId s of Some i \<Rightarrow> i | None \<Rightarrow> ''unknown'')
                      | None \<Rightarrow> (case ExtractId s of Some i \<Rightarrow> i | None \<Rightarrow> ''unknown''))
                newOrder)]\<rparr>"
proof -
  have "map reorderSectionId newOrder =
     map (\<lambda>s. case ekey s of
                        Some k \<Rightarrow> if startsWith k ''layout-'' then drop 7 k
                                  else (case ExtractId s of Some i \<Rightarrow> i | None \<Rightarrow> ''unknown'')
                      | None \<Rightarrow> (case ExtractId s of Some i \<Rightarrow> i | None \<Rightarrow> ''unknown''))
                newOrder"
    using assms by (intro map_cong refl reorderSectionId_spec) (simp add: list_all_iff)
  then show ?thesis by (simp only: handleReorder_def)
qed

theorem handleReorder_notifies_witness:
  "handleReorder
     [RElem (Component ''FullWidthLayout'') (Some ''layout-section-42'') None []
        (RElem (Component ''Section'') None None [] (RStr ''text'')),
      RElem (Component ''FullWidthLayout'') (Some ''inline-editing-demo'') None []
        (RElem (Component ''Section'') None (Some ''intro'') [] RNull),
      RElem (Host ''div'') None None [] (RStr ''plain'')]
     \<lparr>initialSections = [], posted = [], warnings = []\<rparr>
   = \<lparr>initialSections =
        [RElem (Component ''FullWidthLayout'') (Some ''layout-section-42'') None []
           (RElem (Component ''Section'') None None [] (RStr ''text'')),
         RElem (Component ''FullWidthLayout'') (Some ''inline-editing-demo'') None []
           (RElem (Component ''Section'') None (Some ''intro'') [] RNull),
         RElem (Host ''div'') None None [] (RStr ''plain'')],
      posted = [CommitSectionReorder [''section-42'', ''intro'', ''unknown'']],
      warnings = []\<rparr>"
  using handleReorder_notifies
    [of "[RElem (Component ''FullWidthLayout'') (Some ''layout-section-42'') None []
           (RElem (Component ''Section'') None None [] (RStr ''text'')),
         RElem (Component ''FullWidthLayout'') (Some ''inline-editing-demo'') None []
           (RElem (Component ''Section'') None (Some ''intro'') [] RNull),
         RElem (Host ''div'') None None [] (RStr ''plain'')]"
        "\<lparr>initialSections = [], posted = [], warnings = []\<rparr>"]
  by (simp add: startsWith_def ExtractId_def first_id_def)

text \<open>
  C6, as amended. \<open>DraggableSection\<close> resolves the id of the section it wraps from the
  section itself and from its direct child only: the section's own id when that is
  non-empty; otherwise the id of \<open>props.children\<close> when that is a single element;
  otherwise no id at all. It does not search deeper, and it has no fallback (the
  positional \<open>section-\<close> index that \<open>SectionRenderer\<close> computes is the React key of the
  wrapper, not an id). Whenever the resolved id is non-empty it is the id \<open>ExtractId\<close>
  finds. \<open>onDelete\<close> calls the delete entry point it was given, with the resolved id,
  only when that id is non-empty; otherwise it does nothing.
\<close>

theorem DraggableSection_sectionId:
  "(truthy_id (eid sec) \<longrightarrow> sectionId sec = eid sec) \<and>
   (\<not> truthy_id (eid sec) \<and> isValidElement (echildren sec)
      \<longrightarrow> sectionId sec = eid (echildren sec)) \<and>
   (\<not> truthy_id (eid sec) \<and> \<not> isValidElement (echildren sec) \<longrightarrow> sectionId sec = None) \<and>
   (isValidElement sec \<and> truthy_id (sectionId sec) \<longrightarrow> ExtractId sec = sectionId sec) \<and>
   handleDelete sec onDeleteSection st =
     (if truthy_id (sectionId sec)
      then (case onDeleteSection of Some f \<Rightarrow> f (the (sectionId sec)) st | None \<Rightarrow> st)
      else st)"
proof -
  have valid_truthy: "isValidElement c \<Longrightarrow> truthy c" for c by (cases c) auto
  have a: "truthy_id (eid sec) \<longrightarrow> sectionId sec = eid sec"
    by (simp add: sectionId_def)
  have b: "\<not> truthy_id (eid sec) \<and> isValidElement (echildren sec)
      \<longrightarrow> sectionId sec = eid (echildren sec)"
    by (simp add: sectionId_def valid_truthy)
  have c: "\<not> truthy_id (eid sec) \<and> \<not> isValidElement (echildren sec) \<longrightarrow> sectionId sec = None"
    by (simp add: sectionId_def)
  have d: "isValidElement sec \<and> truthy_id (sectionId sec) \<longrightarrow> ExtractId sec = sectionId sec"
  proof
    assume h: "isValidElement sec \<and> truthy_id (sectionId sec)"
    then obtain t k i p ch where sec: "sec = RElem t k i p ch" by (cases sec) auto
    show "ExtractId sec = sectionId sec"
    proof (cases "truthy_id i")
      case True
      then show ?thesis by (simp add: sec sectionId_def ExtractId_def first_id_Cons)
    next
      case False
      then have v: "isValidElement ch" and s: "sectionId sec = eid ch"
        using h by (auto simp: sec sectionId_def split: if_splits)
      then obtain t' k' i' p' ch' where ch: "ch = RElem t' k' i' p' ch'" by (cases ch) auto
      have "truthy_id i'" using h s ch by simp
      then show ?thesis using False s by (simp add: sec ch ExtractId_def first_id_Cons)
    qed
  qed
  have e: "handleDelete sec onDeleteSection st =
     (if truthy_id (sectionId sec)
      then (case onDeleteSection of Some f \<Rightarrow> f (the (sectionId sec)) st | None \<Rightarrow> st)
      else st)"
    by (simp add: handleDelete_def split: option.splits)
  from a b c d e show ?thesis by (intro conjI)
qed

theorem DraggableSection_sectionId_witness:
  "sectionId (RElem (Component ''FullWidthLayout'') (Some ''intro'') None []
               (RElem (Component ''Section'') None (Some ''s1'') [] RNull)) = Some ''s1''
   \<and> ExtractId (RElem (Component ''FullWidthLayout'') (Some ''intro'') None []
               (RElem (Component ''Section'') None (Some ''s1'') [] RNull)) = Some ''s1''
   \<and> handleDelete (RElem (Component ''FullWidthLayout'') (Some ''intro'') None []
               (RElem (Component ''Section'') None (Some ''s1'') [] RNull))
        (Some handleDeleteSection) \<lparr>initialSections = [], posted = [], warnings = []\<rparr>
      = \<lparr>initialSections = [], posted = [CommitSectionDelete ''s1''], warnings = []\<rparr>
   \<and> handleDelete (RElem (Component ''FullWidthLayout'') (Some ''intro'') None [] (RStr ''text''))
        (Some handleDeleteSection) \<lparr>initialSections = [], posted = [], warnings = []\<rparr>
      = \<lparr>initialSections = [], posted = [], warnings = []\<rparr>"
  using DraggableSection_sectionId
    [of "RElem (Component ''FullWidthLayout'') (Some ''intro'') None []
               (RElem (Component ''Section'') None (Some ''s1'') [] RNull)"
        "Some handleDeleteSection" "\<lparr>initialSections = [], posted = [], warnings = []\<rparr>"]
    DraggableSection_sectionId
    [of "RElem (Component ''FullWidthLayout'') (Some ''intro'') None [] (RStr ''text'')"
        "Some handleDeleteSection" "\<lparr>initialSections = [], posted = [], warnings = []\<rparr>"]
  by (simp add: handleDeleteSection_def)

text \<open>
  C6 as stated fails: for a section whose id sits two levels down, \<open>ExtractId\<close> finds it
  and \<open>DraggableSection\<close> resolves nothing, while the positional fallback only ever
  becomes the key of the wrapper; the same happens one level down when the section has
  two children, since \<open>props.children\<close> is then an array.
\<close>

theorem DraggableSection_sectionId_counterexample:
  "ExtractId (RElem (Component ''FullWidthLayout'') None None []
               (RElem (Host ''div'') None None []
                 (RElem (Component ''Section'') None (Some ''s1'') [] RNull))) = Some ''s1''
   \<and> sectionId (RElem (Component ''FullWidthLayout'') None None []
               (RElem (Host ''div'') None None []
                 (RElem (Component ''Section'') None (Some ''s1'') [] RNull))) = None
   \<and> draggableKey (RElem (Component ''FullWidthLayout'') None None []
               (RElem (Host ''div'') None None []
                 (RElem (Component ''Section'') None (Some ''s1'') [] RNull))) 0 = ''section-0''
   \<and> ExtractId (RElem (Component ''SplitLayout'') None None []
               (RArr [RElem (Component ''Section'') None (Some ''left'') [] RNull,
                      RElem (Component ''Section'') None (Some ''right'') [] RNull])) = Some ''left''
   \<and> sectionId (RElem (Component ''SplitLayout'') None None []
               (RArr [RElem (Component ''Section'') None (Some ''left'') [] RNull,
                      RElem (Component ''Section'') None (Some ''right'') [] RNull])) = None"
  by (simp add: ExtractId_def first_id_def sectionId_def draggableKey_def show_nat.simps
      digit_char_def)

text \<open>
  C7, as amended. The placeholder is always wrapped in a \<open>FullWidthLayout\<close> with
  \<open>maxWidth\<close> \<open>xl\<close>, around a \<open>Section\<close>, whatever wrapper the sibling uses: every element
  of the list after \<open>handleAddSection\<close> that was not in the list before is such a wrapper.
\<close>

theorem handleAddSection_wrapper:
  "\<forall>e \<in> set (initialSections (handleAddSection targetId now st)) - set (initialSections st).
     etype e = Component ''FullWidthLayout'' \<and> eprops e = [(''maxWidth'', PStr ''xl'')] \<and>
     etype (echildren e) = Component ''Section''"
proof -
  let ?xs = "initialSections st"
  have "set (take n ?xs @ newSection now # drop n ?xs) = insert (newSection now) (set ?xs)" for n
  proof -
    have "set (take n ?xs @ drop n ?xs) = set ?xs" by (simp only: append_take_drop_id)
    then have "set (take n ?xs) \<union> set (drop n ?xs) = set ?xs" by (simp only: set_append)
    then show ?thesis by auto
  qed
  then have "set (initialSections (handleAddSection targetId now st)) - set ?xs
      \<subseteq> {newSection now}"
    by (auto simp: handleAddSection_def Let_def)
  moreover have "etype (newSection now) = Component ''FullWidthLayout'' \<and>
      eprops (newSection now) = [(''maxWidth'', PStr ''xl'')] \<and>
      etype (echildren (newSection now)) = Component ''Section''"
    by (simp add: newSection_def Let_def)
  ultimately show ?thesis by blast
qed

theorem handleAddSection_wrapper_witness:
  "etype (initialSections
       (handleAddSection ''left'' 42
         \<lparr>initialSections =
            [RElem (Component ''SplitLayout'') (Some ''row'') None [(''ratio'', PStr ''1:1'')]
               (RArr [RElem (Component ''Section'') None (Some ''left'') [] RNull,
                      RElem (Component ''Section'') None (Some ''right'') [] RNull])],
          posted = [], warnings = []\<rparr>) ! 1) = Component ''FullWidthLayout''"
proof -
  let ?st = "\<lparr>initialSections =
            [RElem (Component ''SplitLayout'') (Some ''row'') None [(''ratio'', PStr ''1:1'')]
               (RArr [RElem (Component ''Section'') None (Some ''left'') [] RNull,
                      RElem (Component ''Section'') None (Some ''right'') [] RNull])],
          posted = [], warnings = []\<rparr>"
  have "initialSections (handleAddSection ''left'' 42 ?st) ! 1
          \<in> set (initialSections (handleAddSection ''left'' 42 ?st)) - set (initialSections ?st)"
    by (simp add: handleAddSection_def Children_forEach_def newSection_def Let_def)
  then show ?thesis using handleAddSection_wrapper [of "''left''" 42 ?st] by blast
qed

text \<open>
  C7 as stated fails: after a sibling wrapped in a \<open>SplitLayout\<close>, the new top-level
  element is a \<open>FullWidthLayout\<close>.
\<close>

theorem handleAddSection_wrapper_counterexample:
  "etype (initialSections
       \<lparr>initialSections =
            [RElem (Component ''SplitLayout'') (Some ''row'') None [(''ratio'', PStr ''1:1'')]
               (RArr [RElem (Component ''Section'') None (Some ''left'') [] RNull,
                      RElem (Component ''Section'') None (Some ''right'') [] RNull])],
          posted = [], warnings = []\<rparr> ! 0) = Component ''SplitLayout''
   \<and> etype (initialSections
       (handleAddSection ''left'' 42
         \<lparr>initialSections =
            [RElem (Component ''SplitLayout'') (Some ''row'') None [(''ratio'', PStr ''1:1'')]
               (RArr [RElem (Component ''Section'') None (Some ''left'') [] RNull,
                      RElem (Component ''Section'') None (Some ''right'') [] RNull])],
          posted = [], warnings = []\<rparr>) ! 1) = Component ''FullWidthLayout''
   \<and> length (initialSections
       (handleAddSection ''left'' 42
         \<lparr>initialSections =
            [RElem (Component ''SplitLayout'') (Some ''row'') None [(''ratio'', PStr ''1:1'')]
               (RArr [RElem (Component ''Section'') None (Some ''left'') [] RNull,
                      RElem (Component ''Section'') None (Some ''right'') [] RNull])],
          posted = [], warnings = []\<rparr>)) = 2"
  by (simp add: handleAddSection_def Children_forEach_def newSection_def Let_def)

text \<open>
  C8. Replacing is a no-op when the id is absent. If no element of the tree has the id
  \<open>targetId\<close>, the tree of \<open>replaceSectionContent node targetId x\<close> is the tree of
  \<open>node\<close>, for every \<open>x\<close>: the same nodes with the same types, ids, props and children in
  the same order; the result is an element exactly when \<open>node\<close> is, with the same key.
  (The equality is that of trees. The React value is rebuilt on the way: the children of
  every element visited come back as a flat array.)
\<close>

theorem replaceSectionContent_absent:
  assumes "\<not> ContainsId node targetId"
  shows "nodes (replaceSectionContent node targetId x) = nodes node \<and>
         isValidElement (replaceSectionContent node targetId x) = isValidElement node \<and>
         ekey (replaceSectionContent node targetId x) = ekey node"
  using replace_absent [OF assms] replace_root [of node targetId x] by simp

theorem replaceSectionContent_absent_witness:
  "nodes (replaceSectionContent
            (RElem (Component ''FullWidthLayout'') (Some ''intro'') None [(''maxWidth'', PStr ''xl'')]
              (RElem (Component ''Section'') None (Some ''s1'') []
                (RArr [RElem (Host ''h2'') None None [] (RStr ''Title''), RBool False,
                       RElem (Host ''p'') None None [] (RStr ''Body'')])))
            ''s9'' (RStr ''new''))
     = [Node (Component ''FullWidthLayout'') None [(''maxWidth'', PStr ''xl'')]
          [Node (Component ''Section'') (Some ''s1'') []
             [Node (Host ''h2'') None [] [NText ''Title''],
              Node (Host ''p'') None [] [NText ''Body'']]]]"
  using replaceSectionContent_absent
    [of "RElem (Component ''FullWidthLayout'') (Some ''intro'') None [(''maxWidth'', PStr ''xl'')]
              (RElem (Component ''Section'') None (Some ''s1'') []
                (RArr [RElem (Host ''h2'') None None [] (RStr ''Title''), RBool False,
                       RElem (Host ''p'') None None [] (RStr ''Body'')]))"
        "''s9''" "RStr ''new''"]
  by (simp add: ContainsId_def)

text \<open>
  C9. Tearing the component down while the load is in flight discards the load. Take a
  state in which the promise is pending and no watcher is subscribed, as it is from the
  mount until the load resolves. If the component is torn down in that state, then
  whatever happens afterwards, in any order (the load resolving with any result, watcher
  callbacks, further teardowns), the top-level list and the loading flag stay what they
  were, \<open>cleanup\<close> stays unset and no watcher is ever subscribed.
\<close>

theorem teardown_before_load_discards:
  assumes "pending s" and "\<not> subscribed s"
  shows "initialSections (run dev s (Teardown # evs)) = initialSections s \<and>
         loadingSections (run dev s (Teardown # evs)) = loadingSections s \<and>
         \<not> subscribed (run dev s (Teardown # evs)) \<and>
         cleanup (run dev s (Teardown # evs)) = cleanup s"
proof -
  let ?s = "step dev s Teardown"
  have "cancelled ?s" "\<not> subscribed ?s" using assms by auto
  then have "cancelled (run dev ?s evs) \<and> \<not> subscribed (run dev ?s evs) \<and>
     initialSections (run dev ?s evs) = initialSections ?s \<and>
     loadingSections (run dev ?s evs) = loadingSections ?s \<and>
     cleanup (run dev ?s evs) = cleanup ?s" by (rule cancelled_inv)
  moreover have "run dev s (Teardown # evs) = run dev ?s evs" by (simp add: run_def)
  ultimately show ?thesis by simp
qed

theorem teardown_before_load_discards_witness:
  "initialSections (run True mount
      [Teardown, LoadResolved (Some [RElem (Component ''Section'') None (Some ''s1'') [] RNull]),
       WatcherPush [RElem (Component ''Section'') None (Some ''s2'') [] RNull]]) = []
   \<and> loadingSections (run True mount
      [Teardown, LoadResolved (Some [RElem (Component ''Section'') None (Some ''s1'') [] RNull]),
       WatcherPush [RElem (Component ''Section'') None (Some ''s2'') [] RNull]])
   \<and> \<not> subscribed (run True mount
      [Teardown, LoadResolved (Some [RElem (Component ''Section'') None (Some ''s1'') [] RNull]),
       WatcherPush [RElem (Component ''Section'') None (Some ''s2'') [] RNull]])
   \<and> \<not> cleanup (run True mount
      [Teardown, LoadResolved (Some [RElem (Component ''Section'') None (Some ''s1'') [] RNull]),
       WatcherPush [RElem (Component ''Section'') None (Some ''s2'') [] RNull]])
   \<and> initialSections (run True mount
      [LoadResolved (Some [RElem (Component ''Section'') None (Some ''s1'') [] RNull])])
       = [RElem (Component ''Section'') None (Some ''s1'') [] RNull]
   \<and> subscribed (run True mount
      [LoadResolved (Some [RElem (Component ''Section'') None (Some ''s1'') [] RNull])])"
  using teardown_before_load_discards
    [of mount True
        "[LoadResolved (Some [RElem (Component ''Section'') None (Some ''s1'') [] RNull]),
          WatcherPush [RElem (Component ''Section'') None (Some ''s2'') [] RNull]]"]
  by (simp add: mount_def run_def)

text \<open>
  C10. \<open>onCommit\<close> is called exactly when the key is Enter, Shift is not held and the
  current value has a code unit that is not white space; it is then called once, with the
  component's id and the value as typed (not trimmed). In every other case, a value of
  white space only included, there is no call.
\<close>

theorem handleKeyDown_commits:
  "onCommit (handleKeyDown ident val e) =
     (if key e = ''Enter'' \<and> \<not> shiftKey e \<and> (\<exists>c \<in> set val. \<not> isWhiteSpace c)
      then [(ident, val)] else [])"
  by (auto simp: handleKeyDown_def truthy_string_def trim_empty_iff)

theorem handleKeyDown_commits_witness:
  "onCommit (handleKeyDown ''s1'' [0x20, 0x68, 0x69, 0x20] \<lparr>key = ''Enter'', shiftKey = False\<rparr>)
     = [(''s1'', [0x20, 0x68, 0x69, 0x20])]
   \<and> onCommit (handleKeyDown ''s1'' [0x20, 0x9, 0xA0] \<lparr>key = ''Enter'', shiftKey = False\<rparr>) = []
   \<and> onCommit (handleKeyDown ''s1'' [0x68, 0x69] \<lparr>key = ''Enter'', shiftKey = True\<rparr>) = []"
  using handleKeyDown_commits [of "''s1''" "[0x20, 0x68, 0x69, 0x20]" "\<lparr>key = ''Enter'', shiftKey = False\<rparr>"]
    handleKeyDown_commits [of "''s1''" "[0x20, 0x9, 0xA0]" "\<lparr>key = ''Enter'', shiftKey = False\<rparr>"]
    handleKeyDown_commits [of "''s1''" "[0x68, 0x69]" "\<lparr>key = ''Enter'', shiftKey = True\<rparr>"]
  by (simp add: isWhiteSpace_def)

end
